theory Spec2Isabelle
  imports Complex_Main "HOL-Library.Multiset"
begin

section \<open>Common data\<close>

text \<open>
  An instant (a Python \<open>datetime\<close>) is a count of microseconds; floats are modelled as
  reals. The exceptions the modelled code can raise are values of \<open>error\<close>.
\<close>

type_synonym instant = int

datatype error = ValueError | IndexError | ZeroDivisionError

section \<open>analyze.py: the Series Loader\<close>

text \<open>What \<open>tcxreader\<close> hands over: a trackpoint, whose attributes may be \<open>None\<close>.\<close>

record trackpoint =
  time :: instant
  hr_value :: "int option"
  tp_latitude :: "real option"
  tp_longitude :: "real option"
  tp_altitude :: "real option"
  tp_distance :: "real option"

text \<open>One row of the data frame built in \<open>read_tcx_file\<close>.\<close>

record row =
  timestamp :: instant
  heart_rate :: real
  latitude :: "real option"
  longitude :: "real option"
  altitude :: "real option"
  distance :: "real option"

text \<open>Lines 36-49: every trackpoint of every lap whose \<open>hr_value\<close> is not \<open>None\<close>.\<close>

definition extract_rows :: "trackpoint list list \<Rightarrow> row list" where
  "extract_rows laps =
     List.map_filter
       (\<lambda>tp. case hr_value tp of
                None \<Rightarrow> None
              | Some h \<Rightarrow> Some \<lparr>timestamp = time tp, heart_rate = real_of_int h,
                                latitude = tp_latitude tp, longitude = tp_longitude tp,
                                altitude = tp_altitude tp, distance = tp_distance tp\<rparr>)
       (concat laps)"

text \<open>The aggregations \<open>'mean'\<close> and \<open>'first'\<close> (the first value that is not null).\<close>

definition mean :: "real list \<Rightarrow> real" where
  "mean xs = sum_list xs / real (length xs)"

fun first_valid :: "'a option list \<Rightarrow> 'a option" where
  "first_valid [] = None"
| "first_valid (None # xs) = first_valid xs"
| "first_valid (Some x # xs) = Some x"

definition agg_group :: "instant \<Rightarrow> row list \<Rightarrow> row" where
  "agg_group k g =
     \<lparr>timestamp = k,
      heart_rate = mean (map heart_rate g),
      latitude = first_valid (map latitude g),
      longitude = first_valid (map longitude g),
      altitude = first_valid (map altitude g),
      distance = first_valid (map distance g)\<rparr>"

text \<open>
  \<open>df.groupby('timestamp').agg(...).reset_index()\<close>: one row per distinct key, the keys
  in ascending order, each group holding its rows in the order of the frame.
\<close>

definition groupby_agg :: "row list \<Rightarrow> row list" where
  "groupby_agg df =
     map (\<lambda>k. agg_group k (filter (\<lambda>r. timestamp r = k) df))
         (sort (remdups (map timestamp df)))"

text \<open>
  pandas is not part of the repository. \<open>df.sort_values('timestamp')\<close> (line 55, default
  kind) computes a permutation of the row positions from the key column and takes the rows
  in that order. The function that computes the permutation is the parameter \<open>argsort\<close>:
  \<open>is_argsort\<close> says that it returns the positions, each once, in ascending order of their
  keys. That is all the default (quicksort) promises: the order of positions with equal
  keys is not fixed.
\<close>

definition is_argsort :: "(instant list \<Rightarrow> nat list) \<Rightarrow> bool" where
  "is_argsort argsort \<longleftrightarrow>
     (\<forall>keys. mset (argsort keys) = mset [0..<length keys]
             \<and> sorted (map (\<lambda>i. keys ! i) (argsort keys)))"

definition sort_values :: "(instant list \<Rightarrow> nat list) \<Rightarrow> row list \<Rightarrow> row list" where
  "sort_values argsort df = map (\<lambda>i. df ! i) (argsort (map timestamp df))"

text \<open>Lines 51-66. Every row carries a timestamp, so \<open>groupby\<close> drops none.\<close>

definition canonicalize :: "(instant list \<Rightarrow> nat list) \<Rightarrow> row list \<Rightarrow> row list" where
  "canonicalize argsort df =
     (if df \<noteq> [] then groupby_agg (sort_values argsort df) else df)"

text \<open>
  \<open>read_tcx_file\<close>: \<open>None\<close> stands for a reader that raised, which the \<open>except\<close> clause
  turns into the empty frame.
\<close>

definition read_tcx_file ::
  "(instant list \<Rightarrow> nat list) \<Rightarrow> trackpoint list list option \<Rightarrow> row list" where
  "read_tcx_file argsort tcx_data =
     (case tcx_data of
        None \<Rightarrow> []
      | Some laps \<Rightarrow> canonicalize argsort (extract_rows laps))"

text \<open>
  A sort for concrete runs: the positions in ascending order of their keys, positions with
  equal keys in ascending order.
\<close>

definition stable_argsort :: "instant list \<Rightarrow> nat list" where
  "stable_argsort keys = sort_key (\<lambda>i. keys ! i) [0..<length keys]"

section \<open>analyze.py: the Reconciler\<close>

record merged_row =
  m_timestamp :: instant
  heart_rate_device1 :: real
  heart_rate_device2 :: real
  heart_rate_difference :: real

text \<open>
  \<open>pd.merge(..., on='timestamp')\<close>: the inner join, in the order of the left frame's rows,
  each left row paired with the right rows of the same timestamp.
\<close>

definition merge_on_timestamp :: "row list \<Rightarrow> row list \<Rightarrow> (instant \<times> real \<times> real) list" where
  "merge_on_timestamp l r =
     concat (map (\<lambda>a. map (\<lambda>b. (timestamp a, heart_rate a, heart_rate b))
                           (filter (\<lambda>b. timestamp b = timestamp a) r)) l)"

definition calculate_differences :: "row list \<Rightarrow> row list \<Rightarrow> merged_row list" where
  "calculate_differences device1_data device2_data =
     (if device1_data = [] \<or> device2_data = [] then []
      else let merged = merge_on_timestamp device1_data device2_data in
        if merged = [] then []
        else map (\<lambda>(t, h1, h2). \<lparr>m_timestamp = t, heart_rate_device1 = h1,
                                  heart_rate_device2 = h2,
                                  heart_rate_difference = h1 - h2\<rparr>) merged)"

record device_stats =
  min_hr :: real
  avg_hr :: real
  max_hr :: real
  count_hr :: nat

record difference_stats =
  min_diff :: real
  avg_diff :: real
  max_diff :: real
  abs_avg_diff :: real
  count_diff :: nat

text \<open>The dictionary \<open>stats\<close>: a key that is absent is \<open>None\<close>.\<close>

record stats =
  device1 :: "device_stats option"
  device2 :: "device_stats option"
  difference :: "difference_stats option"

definition device_summary :: "row list \<Rightarrow> device_stats" where
  "device_summary d =
     \<lparr>min_hr = Min (set (map heart_rate d)),
      avg_hr = mean (map heart_rate d),
      max_hr = Max (set (map heart_rate d)),
      count_hr = length d\<rparr>"

definition calculate_summary_statistics :: "row list \<Rightarrow> row list \<Rightarrow> stats" where
  "calculate_summary_statistics device1_data device2_data =
     (let diff_data = calculate_differences device1_data device2_data;
          diffs = map heart_rate_difference diff_data in
      \<lparr>device1 = (if device1_data \<noteq> [] then Some (device_summary device1_data) else None),
       device2 = (if device2_data \<noteq> [] then Some (device_summary device2_data) else None),
       difference =
         (if diff_data \<noteq> [] then
            Some \<lparr>min_diff = Min (set diffs),
                  avg_diff = mean diffs,
                  max_diff = Max (set diffs),
                  abs_avg_diff = mean (map abs diffs),
                  count_diff = length diff_data\<rparr>
          else None)\<rparr>)"

section \<open>generate_synthetic_tcx.py: the random module\<close>

text \<open>
  Python's module \<open>random\<close> is not part of the repository. Its generator is a parameter: a
  type of states \<open>'s\<close> with the primitive draws. \<open>rng_seed\<close> is \<open>random.seed\<close> on an
  integer, \<open>rng_random\<close> is \<open>random.random\<close>, \<open>rng_randbelow n\<close> is the draw of an integer
  below \<open>n\<close> and \<open>rng_normal\<close> the draw of a standard normal deviate. Every draw returns the
  next state, so that the order and the number of draws of the program stay visible.
\<close>

record 's rng =
  rng_seed :: "int \<Rightarrow> 's"
  rng_random :: "'s \<Rightarrow> real \<times> 's"
  rng_randbelow :: "nat \<Rightarrow> 's \<Rightarrow> nat \<times> 's"
  rng_normal :: "'s \<Rightarrow> real \<times> 's"

text \<open>\<open>random.uniform(a, b)\<close> is \<open>a + (b - a) * random()\<close>.\<close>

definition uniform :: "'s rng \<Rightarrow> real \<Rightarrow> real \<Rightarrow> 's \<Rightarrow> real \<times> 's" where
  "uniform R a b s = (case rng_random R s of (u, s') \<Rightarrow> (a + (b - a) * u, s'))"

text \<open>
  \<open>random.randint(a, b)\<close> raises \<open>ValueError\<close> on an empty range and otherwise returns
  \<open>a\<close> plus an integer below \<open>b - a + 1\<close>; the reduction modulo the width states that
  bound for every generator.
\<close>

definition randint :: "'s rng \<Rightarrow> int \<Rightarrow> int \<Rightarrow> 's \<Rightarrow> error + (int \<times> 's)" where
  "randint R a b s =
     (if b < a then Inl ValueError
      else case rng_randbelow R (nat (b - a + 1)) s of
             (k, s') \<Rightarrow> Inr (a + int (k mod nat (b - a + 1)), s'))"

text \<open>\<open>random.gauss(mu, sigma)\<close> is \<open>mu + z * sigma\<close> for a standard normal deviate \<open>z\<close>.\<close>

definition gauss :: "'s rng \<Rightarrow> real \<Rightarrow> real \<Rightarrow> 's \<Rightarrow> real \<times> 's" where
  "gauss R mu sigma s = (case rng_normal R s of (z, s') \<Rightarrow> (mu + z * sigma, s'))"

text \<open>Python's \<open>min(a, b)\<close> and \<open>max(a, b)\<close> return \<open>a\<close> unless \<open>b\<close> is strictly better.\<close>

definition py_min :: "real \<Rightarrow> real \<Rightarrow> real" where
  "py_min a b = (if b < a then b else a)"

definition py_max :: "real \<Rightarrow> real \<Rightarrow> real" where
  "py_max a b = (if a < b then b else a)"

section \<open>generate_synthetic_tcx.py: the generator\<close>

record device_config =
  bias :: real
  noise_std :: real
  gap_probability :: real
  max_gap_seconds :: int
  duplicate_probability :: real

text \<open>
  The object \<open>self\<close>; the dictionary \<open>device_configs\<close> has the two keys \<open>'device1'\<close> and
  \<open>'device2'\<close>.
\<close>

record generator =
  device_configs_device1 :: device_config
  device_configs_device2 :: device_config
  true_hr_min :: real
  true_hr_max :: real
  exercise_duration_minutes :: int
  sampling_rate :: int

text \<open>The five draws of one device's entry, in the order of the dictionary display.\<close>

definition draw_device_config :: "'s rng \<Rightarrow> 's \<Rightarrow> error + (device_config \<times> 's)" where
  "draw_device_config R s =
     (case uniform R (-10) 10 s of (b, s1) \<Rightarrow>
      case uniform R 1 3 s1 of (n, s2) \<Rightarrow>
      case uniform R 0.01 0.05 s2 of (g, s3) \<Rightarrow>
      case randint R 3 30 s3 of
        Inl e \<Rightarrow> Inl e
      | Inr (m, s4) \<Rightarrow>
      case uniform R 0.05 0.15 s4 of (d, s5) \<Rightarrow>
        Inr (\<lparr>bias = b, noise_std = n, gap_probability = g, max_gap_seconds = m,
              duplicate_probability = d\<rparr>, s5))"

text \<open>
  \<open>__init__\<close>: \<open>s\<close> is the state of the global generator before the call, replaced by
  \<open>rng_seed R seed\<close> when a seed is given.
\<close>

definition init :: "'s rng \<Rightarrow> int option \<Rightarrow> 's \<Rightarrow> error + (generator \<times> 's)" where
  "init R seed s =
     (let s0 = (case seed of None \<Rightarrow> s | Some a \<Rightarrow> rng_seed R a) in
      case draw_device_config R s0 of
        Inl e \<Rightarrow> Inl e
      | Inr (c1, s1) \<Rightarrow>
      case draw_device_config R s1 of
        Inl e \<Rightarrow> Inl e
      | Inr (c2, s2) \<Rightarrow>
        Inr (\<lparr>device_configs_device1 = c1, device_configs_device2 = c2,
              true_hr_min = 60, true_hr_max = 180,
              exercise_duration_minutes = 30, sampling_rate = 1\<rparr>, s2))"

text \<open>\<open>timedelta(seconds=i)\<close>, in microseconds.\<close>

definition timedelta_seconds :: "nat \<Rightarrow> int" where
  "timedelta_seconds i = 1000000 * int i"

text \<open>
  The body of the loop of \<open>generate_true_heart_rate\<close> (lines 60-87) at index \<open>i\<close>:
  the pair is \<open>(true_hr, timestamps)\<close>.
\<close>

definition true_heart_rate_step ::
  "generator \<Rightarrow> instant \<Rightarrow> int \<Rightarrow> real list \<times> instant list \<Rightarrow> nat
     \<Rightarrow> real list \<times> instant list" where
  "true_heart_rate_step g start_time duration_seconds acc i =
     (case acc of (true_hr, timestamps) \<Rightarrow>
      let current_time = start_time + timedelta_seconds i;
          progress = real i / real_of_int duration_seconds;
          base_hr =
            (if progress < 0.2 then
               true_hr_min g + (true_hr_max g - true_hr_min g) * (progress / 0.2) * 0.5
             else if progress < 0.5 then
               (let exercise_progress = (progress - 0.2) / 0.3 in
                true_hr_min g + (true_hr_max g - true_hr_min g) * (0.5 + 0.5 * exercise_progress))
             else if progress < 0.8 then
               (let exercise_progress = (progress - 0.5) / 0.3 in
                true_hr_max g - (true_hr_max g - true_hr_min g) * 0.2 * exercise_progress)
             else
               (let cooldown_progress = (progress - 0.8) / 0.2 in
                true_hr_max g * 0.8 - (true_hr_max g * 0.8 - true_hr_min g) * cooldown_progress));
          variability = sin (real i * 0.1) * 3 + sin (real i * 0.05) * 2;
          true_hr_value = base_hr + variability
      in (true_hr @ [py_max (true_hr_min g) (py_min (true_hr_max g) true_hr_value)],
          timestamps @ [current_time]))"

text \<open>
  \<open>generate_true_heart_rate\<close>: \<open>start_time\<close> is what \<open>datetime.now()\<close> returns at line 57.
\<close>

definition generate_true_heart_rate ::
  "generator \<Rightarrow> instant \<Rightarrow> int \<Rightarrow> instant list \<times> real list" where
  "generate_true_heart_rate g start_time duration_seconds =
     (case foldl (true_heart_rate_step g start_time duration_seconds) ([], [])
             [0..<nat duration_seconds] of
        (true_hr, timestamps) \<Rightarrow> (timestamps, true_hr))"

text \<open>
  \<open>generate_autocorrelated_noise\<close>: the loop over \<open>range(1, length)\<close> runs \<open>length - 1\<close>
  times (not at all for \<open>length \<le> 1\<close>), after the first draw. Its only caller leaves the
  correlation factor at the default 0.7, for which the square root is taken of a positive
  number.
\<close>

fun noise_loop :: "'s rng \<Rightarrow> real \<Rightarrow> real \<Rightarrow> nat \<Rightarrow> real list \<Rightarrow> 's \<Rightarrow> real list \<times> 's" where
  "noise_loop R std_dev correlation_factor 0 noise s = (noise, s)"
| "noise_loop R std_dev correlation_factor (Suc k) noise s =
     (case gauss R 0 (std_dev * sqrt (1 - correlation_factor\<^sup>2)) s of
        (z, s') \<Rightarrow>
          noise_loop R std_dev correlation_factor k
            (noise @ [correlation_factor * last noise + z]) s')"

definition generate_autocorrelated_noise ::
  "'s rng \<Rightarrow> nat \<Rightarrow> real \<Rightarrow> real \<Rightarrow> 's \<Rightarrow> real list \<times> 's" where
  "generate_autocorrelated_noise R len std_dev correlation_factor s =
     (case gauss R 0 std_dev s of
        (z, s') \<Rightarrow> noise_loop R std_dev correlation_factor (len - 1) [z] s')"

lemma randint_bounds:
  assumes "randint R a b s = Inr (k, s')"
  shows "a \<le> k \<and> k \<le> b"
proof -
  from assms have ab: "a \<le> b"
    by (simp add: randint_def split: if_splits)
  obtain j t where j: "rng_randbelow R (nat (b - a + 1)) s = (j, t)"
    by (cases "rng_randbelow R (nat (b - a + 1)) s")
  from assms ab j have k: "k = a + int (j mod nat (b - a + 1))"
    by (simp add: randint_def)
  have "0 < nat (b - a + 1)" using ab by simp
  then have "j mod nat (b - a + 1) < nat (b - a + 1)"
    by (rule mod_less_divisor)
  then have "int (j mod nat (b - a + 1)) < b - a + 1"
    using ab by linarith
  then show ?thesis using k by simp
qed

text \<open>
  The \<open>while\<close> loop of \<open>generate_device_data\<close> (lines 112-139) from index \<open>i\<close>, with the
  lists built so far. \<open>true_hr[i]\<close> and \<open>noise[i]\<close> raise \<open>IndexError\<close> out of range. The
  test of line 121 repeats the loop condition of line 113, which holds there (the gap
  branch ends in \<open>continue\<close>), and is left out.
\<close>

function device_loop ::
  "'s rng \<Rightarrow> device_config \<Rightarrow> instant list \<Rightarrow> real list \<Rightarrow> real list \<Rightarrow> nat
     \<Rightarrow> instant list \<Rightarrow> real list \<Rightarrow> 's \<Rightarrow> error + (instant list \<times> real list \<times> 's)" where
  "device_loop R device_config true_timestamps true_hr noise i device_timestamps device_hr s =
     (if i < length true_timestamps then
        (case rng_random R s of (u, s1) \<Rightarrow>
         if u < gap_probability device_config then
           (case randint R 1 (max_gap_seconds device_config) s1 of
              Inl e \<Rightarrow> Inl e
            | Inr (gap_duration, s2) \<Rightarrow>
                device_loop R device_config true_timestamps true_hr noise
                  (i + nat gap_duration) device_timestamps device_hr s2)
         else if \<not> (i < length true_hr \<and> i < length noise) then Inl IndexError
         else
           (let true_value = true_hr ! i;
                device_value = py_max 40 (py_min 220 (true_value + bias device_config + noise ! i));
                device_timestamps1 = device_timestamps @ [true_timestamps ! i];
                device_hr1 = device_hr @ [device_value]
            in case rng_random R s1 of (u2, s2) \<Rightarrow>
               if u2 < duplicate_probability device_config then
                 (case gauss R 0 1 s2 of (z, s3) \<Rightarrow>
                  let duplicate_value = py_max 40 (py_min 220 (device_value + z)) in
                  device_loop R device_config true_timestamps true_hr noise (i + 1)
                    (device_timestamps1 @ [true_timestamps ! i])
                    (device_hr1 @ [duplicate_value]) s3)
               else
                 device_loop R device_config true_timestamps true_hr noise (i + 1)
                   device_timestamps1 device_hr1 s2))
      else Inr (device_timestamps, device_hr, s))"
  by pat_completeness auto
termination
proof (relation "measure (\<lambda>(R, c, ts, hr, noise, i, dts, dhr, s). length ts - i)")
  show "wf (measure (\<lambda>(R :: 's rng, c :: device_config, ts :: instant list, hr :: real list,
          noise :: real list, i :: nat, dts :: instant list, dhr :: real list, s :: 's).
          length ts - i))"
    by simp
qed (auto dest!: randint_bounds)

text \<open>
  \<open>generate_device_data\<close>: the noise is drawn first, then the loop starts at index 0 with
  empty lists. The state of the generator after the call is returned with the two lists.
\<close>

definition generate_device_data ::
  "'s rng \<Rightarrow> instant list \<Rightarrow> real list \<Rightarrow> device_config \<Rightarrow> 's
     \<Rightarrow> error + (instant list \<times> real list \<times> 's)" where
  "generate_device_data R true_timestamps true_hr device_config s =
     (case generate_autocorrelated_noise R (length true_hr) (noise_std device_config) 0.7 s of
        (noise, s') \<Rightarrow>
          device_loop R device_config true_timestamps true_hr noise 0 [] [] s')"

record position =
  pos_latitude :: real
  pos_longitude :: real
  pos_altitude :: real
  pos_distance :: real

text \<open>The body of the loop of \<open>generate_position_data\<close>: one draw per index.\<close>

definition position_step :: "'s rng \<Rightarrow> position list \<times> 's \<Rightarrow> nat \<Rightarrow> position list \<times> 's" where
  "position_step R acc i =
     (case acc of (positions, s) \<Rightarrow>
      let lat = 38.9482 + (real i / 1000) * 0.001;
          lon = - 104.7312 + (real i / 1000) * 0.001
      in case uniform R (- 5) 5 s of
           (u, s') \<Rightarrow>
             (positions @ [\<lparr>pos_latitude = lat, pos_longitude = lon,
                             pos_altitude = 2148 + u, pos_distance = real i * 2.5\<rparr>], s'))"

definition generate_position_data :: "'s rng \<Rightarrow> int \<Rightarrow> 's \<Rightarrow> position list \<times> 's" where
  "generate_position_data R duration_seconds s =
     foldl (position_step R) ([], s) [0..<nat duration_seconds]"

text \<open>
  What \<open>generate_files\<close> hands to \<open>create_tcx_xml\<close> for the two files; the XML text itself
  is not modelled.
\<close>

record fixture =
  device1_timestamps :: "instant list"
  device1_hr :: "real list"
  device2_timestamps :: "instant list"
  device2_hr :: "real list"
  positions :: "position list"

text \<open>
  \<open>generate_files\<close>: \<open>now\<close> is the clock reading of \<open>datetime.now()\<close>. \<open>true_timestamps[0]\<close>
  raises \<open>IndexError\<close> on an empty list, and the last line of the summary divides by the
  length of the shorter device list (\<open>ZeroDivisionError\<close>, raised after the files are
  written).
\<close>

definition generate_files :: "'s rng \<Rightarrow> generator \<Rightarrow> instant \<Rightarrow> 's \<Rightarrow> error + (fixture \<times> 's)" where
  "generate_files R g now s =
     (let duration_seconds = exercise_duration_minutes g * 60 in
      case generate_true_heart_rate g now duration_seconds of
        (true_timestamps, true_hr) \<Rightarrow>
      case generate_position_data R duration_seconds s of
        (pos, s1) \<Rightarrow>
      case generate_device_data R true_timestamps true_hr (device_configs_device1 g) s1 of
        Inl e \<Rightarrow> Inl e
      | Inr (d1_timestamps, d1_hr, s2) \<Rightarrow>
      case generate_device_data R true_timestamps true_hr (device_configs_device2 g) s2 of
        Inl e \<Rightarrow> Inl e
      | Inr (d2_timestamps, d2_hr, s3) \<Rightarrow>
        if true_timestamps = [] then Inl IndexError
        else if min (length d1_hr) (length d2_hr) = 0 then Inl ZeroDivisionError
        else Inr (\<lparr>device1_timestamps = d1_timestamps, device1_hr = d1_hr,
                   device2_timestamps = d2_timestamps, device2_hr = d2_hr,
                   positions = pos\<rparr>, s3))"

text \<open>
  \<open>main\<close> of the generator: construct with the seed of the command line, then generate.
\<close>

definition generator_main :: "'s rng \<Rightarrow> int option \<Rightarrow> instant \<Rightarrow> 's \<Rightarrow> error + (fixture \<times> 's)" where
  "generator_main R seed now s =
     (case init R seed s of
        Inl e \<Rightarrow> Inl e
      | Inr (g, s') \<Rightarrow> generate_files R g now s')"

section \<open>The Signal Model as the specification words it\<close>

text \<open>
  The four-phase envelope of the progress \<open>p\<close>: warmup from \<open>min_hr\<close> to the middle of the
  range, ramp-up from there to \<open>max_hr\<close>, a plateau decaying by 20 percent of the range, and
  a cooldown from \<open>0.8 * max_hr\<close> down to \<open>min_hr\<close>.
\<close>

definition envelope :: "real \<Rightarrow> real \<Rightarrow> real \<Rightarrow> real" where
  "envelope lo hi p =
     (if p < 0.2 then lo + 0.5 * (hi - lo) * (p / 0.2)
      else if p < 0.5 then (lo + 0.5 * (hi - lo)) + (hi - (lo + 0.5 * (hi - lo))) * ((p - 0.2) / 0.3)
      else if p < 0.8 then hi - 0.2 * (hi - lo) * ((p - 0.5) / 0.3)
      else 0.8 * hi - (0.8 * hi - lo) * ((p - 0.8) / 0.2))"

definition signal_model :: "real \<Rightarrow> real \<Rightarrow> nat \<Rightarrow> int \<Rightarrow> real" where
  "signal_model lo hi i duration =
     max lo (min hi (envelope lo hi (real i / real_of_int duration)
                     + (3 * sin (0.1 * real i) + 2 * sin (0.05 * real i))))"

section \<open>A generator for concrete runs\<close>

text \<open>
  A generator whose every uniform draw is \<open>1/2\<close>, whose integer draws are 0 and whose normal
  deviates are 0; its state carries nothing.
\<close>

definition const_rng :: "unit rng" where
  "const_rng =
     \<lparr>rng_seed = (\<lambda>a. ()),
      rng_random = (\<lambda>s. (1 / 2, s)),
      rng_randbelow = (\<lambda>n s. (0, s)),
      rng_normal = (\<lambda>s. (0, s))\<rparr>"

declare device_loop.simps [simp del]

text \<open>A row that carries a heart rate and no position.\<close>

abbreviation hr_row :: "instant \<Rightarrow> real \<Rightarrow> row" where
  "hr_row t h \<equiv> \<lparr>timestamp = t, heart_rate = h, latitude = None, longitude = None,
                  altitude = None, distance = None\<rparr>"

section \<open>Properties of the Series Loader\<close>

lemma first_valid_single: "first_valid [x] = x"
  by (cases x) simp_all

lemma first_valid_None_iff: "first_valid xs = None \<longleftrightarrow> (\<forall>x \<in> set xs. x = None)"
  by (induction xs rule: first_valid.induct) simp_all


lemma is_argsort_stable: "is_argsort stable_argsort"
  by (simp add: is_argsort_def stable_argsort_def)

lemma mset_sort_values:
  assumes "is_argsort argsort"
  shows "mset (sort_values argsort df) = mset df"
proof -
  have "mset (argsort (map timestamp df)) = mset [0..<length df]"
    using assms by (simp add: is_argsort_def)
  then have "mset (map (\<lambda>i. df ! i) (argsort (map timestamp df)))
               = mset (map (\<lambda>i. df ! i) [0..<length df])"
    by (metis mset_map)
  then show ?thesis
    by (simp only: sort_values_def map_nth)
qed

lemma canonicalize_eq:
  assumes "is_argsort argsort"
  shows "canonicalize argsort df = groupby_agg (sort_values argsort df)"
proof (cases "df = []")
  case True
  from mset_sort_values[OF assms, of df] True have "sort_values argsort df = []" by simp
  with True show ?thesis by (simp add: canonicalize_def groupby_agg_def)
next
  case False
  then show ?thesis by (simp add: canonicalize_def)
qed

lemma groupby_agg_alt:
  "groupby_agg ys =
     map (\<lambda>k. agg_group k (filter (\<lambda>r. timestamp r = k) ys))
         (sorted_list_of_set (timestamp ` set ys))"
  by (simp add: groupby_agg_def sorted_list_of_set_sort_remdups[symmetric])

lemma timestamp_agg_group [simp]: "timestamp (agg_group k g) = k"
  by (simp add: agg_group_def)

lemma heart_rate_agg_group [simp]: "heart_rate (agg_group k g) = mean (map heart_rate g)"
  by (simp add: agg_group_def)

lemma sum_list_filter_perm:
  assumes "mset ys = mset xs"
  shows "sum_list (map heart_rate (filter P ys)) = sum_list (map heart_rate (filter P xs))"
proof -
  have "mset (map heart_rate (filter P ys)) = mset (map heart_rate (filter P xs))"
    using assms by (metis mset_filter mset_map)
  then show ?thesis by (metis sum_mset_sum_list)
qed

lemma length_filter_perm:
  assumes "mset ys = mset xs"
  shows "length (filter P ys) = length (filter P xs)"
  using assms by (metis mset_filter size_mset)

text \<open>
  The rows of the canonical series, whatever the sort does with equal timestamps: one row
  per distinct timestamp, in ascending order, with the mean of the heart rates of that
  timestamp.
\<close>

lemma map_timestamp_canonicalize:
  assumes "is_argsort argsort"
  shows "map timestamp (canonicalize argsort df) = sorted_list_of_set (timestamp ` set df)"
proof -
  have "set (sort_values argsort df) = set df"
    using mset_sort_values[OF assms] by (rule mset_eq_setD)
  then show ?thesis
    by (simp add: canonicalize_eq[OF assms] groupby_agg_alt o_def)
qed

lemma strict_sorted_timestamps_canonicalize:
  assumes "is_argsort argsort"
  shows "sorted_wrt (<) (map timestamp (canonicalize argsort df))"
  by (simp add: map_timestamp_canonicalize[OF assms])

lemma map_heart_rate_canonicalize:
  assumes "is_argsort argsort"
  shows "map heart_rate (canonicalize argsort df) =
           map (\<lambda>k. sum_list (map heart_rate (filter (\<lambda>r. timestamp r = k) df))
                      / real (length (filter (\<lambda>r. timestamp r = k) df)))
               (sorted_list_of_set (timestamp ` set df))"
proof -
  have m: "mset (sort_values argsort df) = mset df"
    by (rule mset_sort_values[OF assms])
  then have s: "set (sort_values argsort df) = set df" by (rule mset_eq_setD)
  show ?thesis
    by (simp add: canonicalize_eq[OF assms] groupby_agg_alt o_def s mean_def
          sum_list_filter_perm[OF m] length_filter_perm[OF m])
qed

lemma agg_group_single: "timestamp r = k \<Longrightarrow> agg_group k [r] = r"
  by (simp add: agg_group_def mean_def first_valid_single)

lemma filter_eq_distinct:
  "distinct ks \<Longrightarrow> k \<in> set ks \<Longrightarrow> filter (\<lambda>x. x = k) ks = [k]"
  by (induction ks) (auto simp: filter_empty_conv)

text \<open>A frame that \<open>groupby_agg\<close> produced is left as it is, in whatever order its rows come.\<close>

lemma groupby_agg_fixed:
  assumes "mset zs = mset (groupby_agg ys)"
  shows "groupby_agg zs = groupby_agg ys"
proof -
  let ?S = "timestamp ` set ys"
  let ?K = "sorted_list_of_set ?S"
  let ?F = "\<lambda>k. agg_group k (filter (\<lambda>r. timestamp r = k) ys)"
  have c: "groupby_agg ys = map ?F ?K" by (rule groupby_agg_alt)
  have sz: "set zs = set (map ?F ?K)"
    using assms unfolding c by (rule mset_eq_setD)
  have keys: "timestamp ` set zs = ?S"
    unfolding sz by (simp add: image_image)
  have grp: "filter (\<lambda>r. timestamp r = k) zs = [?F k]" if "k \<in> set ?K" for k
  proof -
    have "filter (\<lambda>r. timestamp r = k) (map ?F ?K) = map ?F (filter (\<lambda>k'. k' = k) ?K)"
      by (simp add: filter_map o_def)
    also have "filter (\<lambda>k'. k' = k) ?K = [k]"
      using that by (intro filter_eq_distinct) simp_all
    finally have one: "filter (\<lambda>r. timestamp r = k) (map ?F ?K) = [?F k]" by simp
    have "mset (filter (\<lambda>r. timestamp r = k) zs)
            = mset (filter (\<lambda>r. timestamp r = k) (map ?F ?K))"
      using assms unfolding c by (metis mset_filter)
    then have "mset (filter (\<lambda>r. timestamp r = k) zs) = {#?F k#}"
      by (simp only: one mset.simps)
    then show ?thesis
      by (simp only: mset_single_iff)
  qed
  have "groupby_agg zs = map (\<lambda>k. agg_group k (filter (\<lambda>r. timestamp r = k) zs)) ?K"
    by (simp only: groupby_agg_alt keys)
  also have "\<dots> = map ?F ?K"
    by (rule map_cong[OF refl]) (simp only: grp agg_group_single timestamp_agg_group)
  finally show ?thesis by (simp only: c)
qed

text \<open>
  C4. Canonicalization is idempotent: canonicalizing a canonical series gives it back,
  whatever the sort does with rows of equal timestamps.
\<close>

theorem canonicalize_idempotent:
  assumes "is_argsort argsort"
  shows "canonicalize argsort (canonicalize argsort x) = canonicalize argsort x"
proof -
  have "canonicalize argsort (canonicalize argsort x)
          = groupby_agg (sort_values argsort (groupby_agg (sort_values argsort x)))"
    by (simp only: canonicalize_eq[OF assms])
  also have "\<dots> = groupby_agg (sort_values argsort x)"
    by (rule groupby_agg_fixed) (rule mset_sort_values[OF assms])
  finally show ?thesis by (simp only: canonicalize_eq[OF assms])
qed

theorem canonicalize_idempotent_witness:
  "is_argsort stable_argsort
   \<and> canonicalize stable_argsort [hr_row 2 90, hr_row 1 60, hr_row 1 80]
       = [hr_row 1 70, hr_row 2 90]
   \<and> canonicalize stable_argsort
         (canonicalize stable_argsort [hr_row 2 90, hr_row 1 60, hr_row 1 80])
       = [hr_row 1 70, hr_row 2 90]"
proof -
  have c: "canonicalize stable_argsort [hr_row 2 90, hr_row 1 60, hr_row 1 80]
             = [hr_row 1 70, hr_row 2 90]"
    by (simp add: canonicalize_def sort_values_def stable_argsort_def groupby_agg_def
          agg_group_def mean_def upt_rec)
  from canonicalize_idempotent[OF is_argsort_stable, of "[hr_row 2 90, hr_row 1 60, hr_row 1 80]"]
    is_argsort_stable c
  show ?thesis by (simp only: simp_thms)
qed

text \<open>
  C2. Two trackpoints \<open>(t, 60)\<close> and \<open>(t, 80)\<close> of one timestamp collapse into the single
  row \<open>(t, 70)\<close>, with or without position data. In general the canonical series has one row
  per distinct timestamp, in ascending order, and the heart rate of each row is the
  arithmetic mean of the heart rates of the input rows of that timestamp: their sum divided
  by their number.
\<close>

theorem duplicate_averaging:
  assumes "is_argsort argsort"
  shows "canonicalize argsort [hr_row t 60, hr_row t 80] = [hr_row t 70]
   \<and> map (\<lambda>c. (timestamp c, heart_rate c))
         (canonicalize argsort
            [\<lparr>timestamp = t, heart_rate = 60, latitude = la1, longitude = lo1,
              altitude = al1, distance = di1\<rparr>,
             \<lparr>timestamp = t, heart_rate = 80, latitude = la2, longitude = lo2,
              altitude = al2, distance = di2\<rparr>])
       = [(t, 70)]
   \<and> map timestamp (canonicalize argsort df) = sorted_list_of_set (timestamp ` set df)
   \<and> (\<forall>c \<in> set (canonicalize argsort df).
         heart_rate c
           = sum_list (map heart_rate (filter (\<lambda>r. timestamp r = timestamp c) df))
             / real (length (filter (\<lambda>r. timestamp r = timestamp c) df)))"
proof (intro conjI)
  let ?xs = "[hr_row t 60, hr_row t 80]"
  have m: "mset (sort_values argsort ?xs) = mset ?xs"
    by (rule mset_sort_values[OF assms])
  then have s: "set (sort_values argsort ?xs) = set ?xs" by (rule mset_eq_setD)
  have all: "filter (\<lambda>r. timestamp r = t) (sort_values argsort ?xs) = sort_values argsort ?xs"
    by (simp add: s)
  have none: "first_valid (map f (sort_values argsort ?xs)) = None"
    if "f (hr_row t 60) = None" "f (hr_row t 80) = None" for f :: "row \<Rightarrow> real option"
    using that by (simp add: first_valid_None_iff s)
  have su: "sum_list (map heart_rate (sort_values argsort ?xs)) = 140"
    using sum_list_filter_perm[OF m, of "\<lambda>r. True"] by simp
  have le: "length (sort_values argsort ?xs) = 2"
    using length_filter_perm[OF m, of "\<lambda>r. True"] by simp
  show "canonicalize argsort ?xs = [hr_row t 70]"
    by (simp add: canonicalize_eq[OF assms] groupby_agg_alt s all agg_group_def mean_def
          none su le)
next
  let ?xs = "[\<lparr>timestamp = t, heart_rate = 60, latitude = la1, longitude = lo1,
              altitude = al1, distance = di1\<rparr>,
             \<lparr>timestamp = t, heart_rate = 80, latitude = la2, longitude = lo2,
              altitude = al2, distance = di2\<rparr>]"
  have "map timestamp (canonicalize argsort ?xs) = [t]"
    by (simp add: map_timestamp_canonicalize[OF assms])
  moreover have "map heart_rate (canonicalize argsort ?xs) = [70]"
    by (simp add: map_heart_rate_canonicalize[OF assms])
  ultimately show "map (\<lambda>c. (timestamp c, heart_rate c)) (canonicalize argsort ?xs) = [(t, 70)]"
    by (cases "canonicalize argsort ?xs") auto
next
  show "map timestamp (canonicalize argsort df) = sorted_list_of_set (timestamp ` set df)"
    by (rule map_timestamp_canonicalize[OF assms])
next
  have m: "mset (sort_values argsort df) = mset df"
    by (rule mset_sort_values[OF assms])
  show "\<forall>c \<in> set (canonicalize argsort df).
         heart_rate c
           = sum_list (map heart_rate (filter (\<lambda>r. timestamp r = timestamp c) df))
             / real (length (filter (\<lambda>r. timestamp r = timestamp c) df))"
    by (auto simp: canonicalize_eq[OF assms] groupby_agg_alt mean_def
          sum_list_filter_perm[OF m] length_filter_perm[OF m])
qed

theorem duplicate_averaging_witness:
  "is_argsort stable_argsort
   \<and> hr_row 5 70 \<in> set (canonicalize stable_argsort [hr_row 5 60, hr_row 5 80])
   \<and> sum_list (map heart_rate (filter (\<lambda>r. timestamp r = 5) [hr_row 5 60, hr_row 5 80]))
       / real (length (filter (\<lambda>r. timestamp r = 5) [hr_row 5 60, hr_row 5 80])) = 70"
  using duplicate_averaging[OF is_argsort_stable,
          of 5 None None None None None None None None "[hr_row 5 60, hr_row 5 80]"]
    is_argsort_stable
  by simp








section \<open>Properties of the Reconciler\<close>

lemma set_merge_on_timestamp:
  "set (merge_on_timestamp l r) =
     {(timestamp a, heart_rate a, heart_rate b) | a b.
        a \<in> set l \<and> b \<in> set r \<and> timestamp b = timestamp a}"
  by (auto simp: merge_on_timestamp_def)

lemma merge_on_timestamp_memI:
  "a \<in> set l \<Longrightarrow> b \<in> set r \<Longrightarrow> timestamp b = timestamp a \<Longrightarrow>
     (timestamp a, heart_rate a, heart_rate b) \<in> set (merge_on_timestamp l r)"
  by (auto simp: merge_on_timestamp_def)

lemma merge_on_timestamp_memE:
  assumes "x \<in> set (merge_on_timestamp l r)"
  obtains a b where "a \<in> set l" "b \<in> set r" "timestamp b = timestamp a"
    "x = (timestamp a, heart_rate a, heart_rate b)"
  using assms by (auto simp: merge_on_timestamp_def)

lemma merge_on_timestamp_Cons:
  "merge_on_timestamp (a # l) r =
     map (\<lambda>b. (timestamp a, heart_rate a, heart_rate b))
         (filter (\<lambda>b. timestamp b = timestamp a) r) @ merge_on_timestamp l r"
  by (simp add: merge_on_timestamp_def)

lemma calculate_differences_eq:
  "calculate_differences A B =
     map (\<lambda>(t, h1, h2). \<lparr>m_timestamp = t, heart_rate_device1 = h1,
                            heart_rate_device2 = h2,
                            heart_rate_difference = h1 - h2\<rparr>) (merge_on_timestamp A B)"
  by (auto simp: calculate_differences_def Let_def merge_on_timestamp_def)

lemma length_filter_key_le1:
  "distinct (map f xs) \<Longrightarrow> length (filter (\<lambda>b. f b = k) xs) \<le> Suc 0"
  by (induction xs) (auto simp: filter_empty_conv image_iff)

lemma sorted_wrt_short: "length xs \<le> Suc 0 \<Longrightarrow> sorted_wrt P xs"
  by (cases xs) auto

lemma sorted_fst_merge_on_timestamp:
  assumes "sorted_wrt (<) (map timestamp l)" and "distinct (map timestamp r)"
  shows "sorted_wrt (<) (map fst (merge_on_timestamp l r))"
  using assms(1)
proof (induction l)
  case Nil
  then show ?case by (simp add: merge_on_timestamp_def)
next
  case (Cons a l)
  have short: "sorted_wrt (<) (map fst (map (\<lambda>b. (timestamp a, heart_rate a, heart_rate b))
         (filter (\<lambda>b. timestamp b = timestamp a) r)))"
    by (rule sorted_wrt_short) (simp add: length_filter_key_le1[OF assms(2)])
  have rest: "sorted_wrt (<) (map fst (merge_on_timestamp l r))"
    using Cons by simp
  have cross: "timestamp a < t" if "t \<in> fst ` set (merge_on_timestamp l r)" for t
    using that Cons.prems by (auto simp: set_merge_on_timestamp)
  show ?case
    using short rest cross
    by (auto simp: merge_on_timestamp_Cons sorted_wrt_append)
qed

lemma strict_sorted_key_unique:
  fixes f :: "'a \<Rightarrow> 'b::linorder"
  assumes "sorted_wrt (<) (map f xs)" and "sorted_wrt (<) (map f ys)" and "set xs = set ys"
  shows "xs = ys"
proof -
  have x: "sorted (map f xs) \<and> distinct (map f xs)"
    by (rule iffD1[OF strict_sorted_iff assms(1)])
  have y: "sorted (map f ys) \<and> distinct (map f ys)"
    by (rule iffD1[OF strict_sorted_iff assms(2)])
  from x have "distinct xs \<and> inj_on f (set xs)"
    by (simp only: distinct_map)
  then have inj: "inj_on f (set xs \<union> set ys)"
    by (simp only: assms(3)[symmetric] Un_absorb)
  show ?thesis
    by (rule map_sorted_distinct_set_unique[OF inj conjunct1[OF x] conjunct2[OF x]
          conjunct1[OF y] conjunct2[OF y] assms(3)])
qed

text \<open>
  C5. For two canonical series (timestamps strictly increasing), the differences computed
  with the devices swapped are the negated differences, row by row, at the same timestamps,
  and both directions have the same number of rows.
\<close>

theorem reconciler_antisymmetric:
  assumes "sorted_wrt (<) (map timestamp A)" and "sorted_wrt (<) (map timestamp B)"
  shows "map heart_rate_difference (calculate_differences A B)
           = map (\<lambda>m. - heart_rate_difference m) (calculate_differences B A)
       \<and> map m_timestamp (calculate_differences A B)
           = map m_timestamp (calculate_differences B A)
       \<and> length (calculate_differences A B) = length (calculate_differences B A)"
proof -
  let ?g = "\<lambda>(t :: instant, h1 :: real, h2 :: real). (t, h1 - h2)"
  let ?g' = "\<lambda>(t :: instant, h1 :: real, h2 :: real). (t, - (h1 - h2))"
  let ?X = "map ?g (merge_on_timestamp A B)"
  let ?Y = "map ?g' (merge_on_timestamp B A)"
  have dA: "distinct (map timestamp A)" and dB: "distinct (map timestamp B)"
    using assms by (simp_all add: strict_sorted_iff)
  have fX: "map fst ?X = map fst (merge_on_timestamp A B)"
    by (simp add: o_def case_prod_unfold)
  have fY: "map fst ?Y = map fst (merge_on_timestamp B A)"
    by (simp add: o_def case_prod_unfold)
  have sX: "sorted_wrt (<) (map fst ?X)"
    unfolding fX by (rule sorted_fst_merge_on_timestamp[OF assms(1) dB])
  have sY: "sorted_wrt (<) (map fst ?Y)"
    unfolding fY by (rule sorted_fst_merge_on_timestamp[OF assms(2) dA])
  have "set ?X = set ?Y"
  proof (intro set_eqI iffI)
    fix p assume "p \<in> set ?X"
    then have "p \<in> ?g ` set (merge_on_timestamp A B)" by (simp only: set_map)
    then obtain x where x: "x \<in> set (merge_on_timestamp A B)" and p: "p = ?g x" ..
    from x obtain a b where ab: "a \<in> set A" "b \<in> set B" "timestamp b = timestamp a"
      and xe: "x = (timestamp a, heart_rate a, heart_rate b)"
      by (rule merge_on_timestamp_memE)
    have "(timestamp b, heart_rate b, heart_rate a) \<in> set (merge_on_timestamp B A)"
      by (rule merge_on_timestamp_memI) (simp_all only: ab)
    then have "?g' (timestamp b, heart_rate b, heart_rate a) \<in> ?g' ` set (merge_on_timestamp B A)"
      by (rule imageI)
    moreover have "?g' (timestamp b, heart_rate b, heart_rate a) = p"
      unfolding p xe ab(3) by simp
    ultimately show "p \<in> set ?Y" by (simp only: set_map)
  next
    fix p assume "p \<in> set ?Y"
    then have "p \<in> ?g' ` set (merge_on_timestamp B A)" by (simp only: set_map)
    then obtain x where x: "x \<in> set (merge_on_timestamp B A)" and p: "p = ?g' x" ..
    from x obtain b a where ab: "b \<in> set B" "a \<in> set A" "timestamp a = timestamp b"
      and xe: "x = (timestamp b, heart_rate b, heart_rate a)"
      by (rule merge_on_timestamp_memE)
    have "(timestamp a, heart_rate a, heart_rate b) \<in> set (merge_on_timestamp A B)"
      by (rule merge_on_timestamp_memI) (simp_all only: ab)
    then have "?g (timestamp a, heart_rate a, heart_rate b) \<in> ?g ` set (merge_on_timestamp A B)"
      by (rule imageI)
    moreover have "?g (timestamp a, heart_rate a, heart_rate b) = p"
      unfolding p xe ab(3) by simp
    ultimately show "p \<in> set ?X" by (simp only: set_map)
  qed
  then have XY: "?X = ?Y"
    by (rule strict_sorted_key_unique[OF sX sY])
  have 1: "map heart_rate_difference (calculate_differences A B) = map snd ?X"
    by (simp add: calculate_differences_eq o_def case_prod_unfold)
  have 2: "map (\<lambda>m. - heart_rate_difference m) (calculate_differences B A) = map snd ?Y"
    by (simp add: calculate_differences_eq o_def case_prod_unfold)
  have 3: "map m_timestamp (calculate_differences A B) = map fst ?X"
    by (simp add: calculate_differences_eq o_def case_prod_unfold)
  have 4: "map m_timestamp (calculate_differences B A) = map fst ?Y"
    by (simp add: calculate_differences_eq o_def case_prod_unfold)
  have 5: "length (calculate_differences A B) = length ?X"
    by (simp add: calculate_differences_eq)
  have 6: "length (calculate_differences B A) = length ?Y"
    by (simp add: calculate_differences_eq)
  show ?thesis
    by (simp only: 1 2 3 4 5 6 XY)
qed

theorem reconciler_antisymmetric_witness:
  "sorted_wrt (<) (map timestamp [hr_row 1 100, hr_row 2 110])
   \<and> sorted_wrt (<) (map timestamp [hr_row 2 105, hr_row 3 90])
   \<and> map heart_rate_difference
         (calculate_differences [hr_row 1 100, hr_row 2 110] [hr_row 2 105, hr_row 3 90]) = [5]
   \<and> map (\<lambda>m. - heart_rate_difference m)
         (calculate_differences [hr_row 2 105, hr_row 3 90] [hr_row 1 100, hr_row 2 110]) = [5]"
proof -
  have a: "sorted_wrt (<) (map timestamp [hr_row 1 100, hr_row 2 110])" by simp
  have b: "sorted_wrt (<) (map timestamp [hr_row 2 105, hr_row 3 90])" by simp
  have c: "map heart_rate_difference
         (calculate_differences [hr_row 1 100, hr_row 2 110] [hr_row 2 105, hr_row 3 90]) = [5]"
    by (simp add: calculate_differences_def merge_on_timestamp_def)
  show ?thesis
    using a b c reconciler_antisymmetric[OF a b] by simp
qed

text \<open>
  C6. With an empty first series and a non-empty second series \<open>B\<close>, the difference set is
  empty and the statistics hold the entry of device 2 only (minimum, mean, maximum and
  count of the heart rates of \<open>B\<close>); there is no entry for device 1 and none for the
  difference.
\<close>

theorem empty_input_safety:
  "B \<noteq> [] \<Longrightarrow>
     calculate_differences [] B = []
   \<and> calculate_summary_statistics [] B =
       \<lparr>device1 = None,
        device2 = Some \<lparr>min_hr = Min (set (map heart_rate B)),
                        avg_hr = sum_list (map heart_rate B) / real (length B),
                        max_hr = Max (set (map heart_rate B)),
                        count_hr = length B\<rparr>,
        difference = None\<rparr>"
  by (simp add: calculate_summary_statistics_def calculate_differences_def device_summary_def
        mean_def)

theorem empty_input_safety_witness:
  "[hr_row 1 100, hr_row 2 110] \<noteq> []
   \<and> calculate_differences [] [hr_row 1 100, hr_row 2 110] = []
   \<and> calculate_summary_statistics [] [hr_row 1 100, hr_row 2 110] =
       \<lparr>device1 = None,
        device2 = Some \<lparr>min_hr = 100, avg_hr = 105, max_hr = 110, count_hr = 2\<rparr>,
        difference = None\<rparr>"
  using empty_input_safety[of "[hr_row 1 100, hr_row 2 110]"] by simp

section \<open>Properties of the Signal Model\<close>

lemma py_max_eq_max: "py_max a b = max a b"
  by (simp add: py_max_def max_def)

lemma py_min_eq_min: "py_min a b = min a b"
  by (simp add: py_min_def min_def)

lemma base_hr_eq_envelope:
  "(if p < 0.2 then lo + (hi - lo) * (p / 0.2) * 0.5
    else if p < 0.5 then lo + (hi - lo) * (0.5 + 0.5 * ((p - 0.2) / 0.3))
    else if p < 0.8 then hi - (hi - lo) * 0.2 * ((p - 0.5) / 0.3)
    else hi * 0.8 - (hi * 0.8 - lo) * ((p - 0.8) / 0.2))
   = envelope lo hi (p :: real)"
proof -
  have 1: "lo + (hi - lo) * (p / 0.2) * 0.5 = lo + 0.5 * (hi - lo) * (p / 0.2)"
    by (simp add: field_simps)
  have 2: "lo + (hi - lo) * (0.5 + 0.5 * ((p - 0.2) / 0.3))
             = (lo + 0.5 * (hi - lo)) + (hi - (lo + 0.5 * (hi - lo))) * ((p - 0.2) / 0.3)"
    by (simp add: field_simps)
  have 3: "hi - (hi - lo) * 0.2 * ((p - 0.5) / 0.3) = hi - 0.2 * (hi - lo) * ((p - 0.5) / 0.3)"
    by (simp add: field_simps)
  have 4: "hi * 0.8 - (hi * 0.8 - lo) * ((p - 0.8) / 0.2)
             = 0.8 * hi - (0.8 * hi - lo) * ((p - 0.8) / 0.2)"
    by (simp add: field_simps)
  show ?thesis
    unfolding envelope_def 1 2 3 4 ..
qed

lemma true_heart_rate_step_eq:
  "true_heart_rate_step g start_time duration_seconds (hs, ts) i =
     (hs @ [signal_model (true_hr_min g) (true_hr_max g) i duration_seconds],
      ts @ [start_time + timedelta_seconds i])"
proof -
  have v: "sin (real i * 0.1) * 3 + sin (real i * 0.05) * 2
             = 3 * sin (0.1 * real i) + 2 * sin (0.05 * real i)"
    by (simp add: mult.commute)
  show ?thesis
    unfolding true_heart_rate_step_def signal_model_def Let_def
      py_max_eq_max py_min_eq_min v base_hr_eq_envelope
    by simp
qed

lemma foldl_true_heart_rate_step:
  "foldl (true_heart_rate_step g start_time d) (hs, ts) js =
     (hs @ map (\<lambda>i. signal_model (true_hr_min g) (true_hr_max g) i d) js,
      ts @ map (\<lambda>i. start_time + timedelta_seconds i) js)"
  by (induction js arbitrary: hs ts) (simp_all add: true_heart_rate_step_eq)

lemma generate_true_heart_rate_eq:
  "generate_true_heart_rate g start_time d =
     (map (\<lambda>i. start_time + timedelta_seconds i) [0..<nat d],
      map (\<lambda>i. signal_model (true_hr_min g) (true_hr_max g) i d) [0..<nat d])"
  by (simp add: generate_true_heart_rate_def foldl_true_heart_rate_step)

text \<open>
  C9. At every sample index \<open>i\<close> below the duration, the heart rate that
  \<open>generate_true_heart_rate\<close> returns is the Signal Model of the specification: the
  four-phase envelope of the progress \<open>i / duration\<close> plus \<open>3 sin(0.1 i) + 2 sin(0.05 i)\<close>,
  clamped to the range from \<open>true_hr_min\<close> to \<open>true_hr_max\<close>; the timestamp of the sample is
  the start time plus \<open>i\<close> seconds, and there are \<open>duration\<close> samples.
\<close>

theorem signal_model_refines:
  "int i < duration \<Longrightarrow>
     snd (generate_true_heart_rate g start_time duration) ! i
       = signal_model (true_hr_min g) (true_hr_max g) i duration
   \<and> fst (generate_true_heart_rate g start_time duration) ! i
       = start_time + timedelta_seconds i
   \<and> length (snd (generate_true_heart_rate g start_time duration)) = nat duration"
proof -
  assume "int i < duration"
  then have "i < nat duration" by linarith
  then show ?thesis
    by (simp add: generate_true_heart_rate_eq)
qed

theorem signal_model_refines_witness:
  "int 0 < 1800
   \<and> snd (generate_true_heart_rate
        \<lparr>device_configs_device1 =
           \<lparr>bias = 0, noise_std = 2, gap_probability = 0.03, max_gap_seconds = 3,
            duplicate_probability = 0.1\<rparr>,
         device_configs_device2 =
           \<lparr>bias = 0, noise_std = 2, gap_probability = 0.03, max_gap_seconds = 3,
            duplicate_probability = 0.1\<rparr>,
         true_hr_min = 60, true_hr_max = 180, exercise_duration_minutes = 30,
         sampling_rate = 1\<rparr> 0 1800) ! 0 = 60"
  using signal_model_refines[of 0 1800
        "\<lparr>device_configs_device1 =
           \<lparr>bias = 0, noise_std = 2, gap_probability = 0.03, max_gap_seconds = 3,
            duplicate_probability = 0.1\<rparr>,
         device_configs_device2 =
           \<lparr>bias = 0, noise_std = 2, gap_probability = 0.03, max_gap_seconds = 3,
            duplicate_probability = 0.1\<rparr>,
         true_hr_min = 60, true_hr_max = 180, exercise_duration_minutes = 30,
         sampling_rate = 1\<rparr>" 0]
  by (simp add: signal_model_def envelope_def)

section \<open>Properties of the Device Noise Model\<close>

lemma clamp_bounds: "40 \<le> py_max 40 (py_min 220 x) \<and> py_max 40 (py_min 220 x) \<le> 220"
  by (simp add: py_max_def py_min_def)

lemma device_loop_done:
  "\<not> i < length tts \<Longrightarrow> device_loop R c tts thr noise i dts dhr s = Inr (dts, dhr, s)"
  by (subst device_loop.simps) simp

lemma device_loop_gap:
  "i < length tts \<Longrightarrow> rng_random R s = (u, s1) \<Longrightarrow> u < gap_probability c \<Longrightarrow>
     device_loop R c tts thr noise i dts dhr s =
       (case randint R 1 (max_gap_seconds c) s1 of
          Inl e \<Rightarrow> Inl e
        | Inr (g, s2) \<Rightarrow> device_loop R c tts thr noise (i + nat g) dts dhr s2)"
  by (subst device_loop.simps) simp

lemma device_loop_index_error:
  "i < length tts \<Longrightarrow> rng_random R s = (u, s1) \<Longrightarrow> \<not> u < gap_probability c \<Longrightarrow>
     \<not> (i < length thr \<and> i < length noise) \<Longrightarrow>
     device_loop R c tts thr noise i dts dhr s = Inl IndexError"
  by (subst device_loop.simps) simp

lemma device_loop_emit:
  "i < length tts \<Longrightarrow> rng_random R s = (u, s1) \<Longrightarrow> \<not> u < gap_probability c \<Longrightarrow>
     i < length thr \<Longrightarrow> i < length noise \<Longrightarrow> rng_random R s1 = (u2, s2) \<Longrightarrow>
     \<not> u2 < duplicate_probability c \<Longrightarrow>
     device_loop R c tts thr noise i dts dhr s =
       device_loop R c tts thr noise (Suc i) (dts @ [tts ! i])
         (dhr @ [py_max 40 (py_min 220 (thr ! i + bias c + noise ! i))]) s2"
  by (subst device_loop.simps) (simp add: Let_def)

lemma device_loop_emit_duplicate:
  "i < length tts \<Longrightarrow> rng_random R s = (u, s1) \<Longrightarrow> \<not> u < gap_probability c \<Longrightarrow>
     i < length thr \<Longrightarrow> i < length noise \<Longrightarrow> rng_random R s1 = (u2, s2) \<Longrightarrow>
     u2 < duplicate_probability c \<Longrightarrow> gauss R 0 1 s2 = (z, s3) \<Longrightarrow>
     device_loop R c tts thr noise i dts dhr s =
       device_loop R c tts thr noise (Suc i) (dts @ [tts ! i, tts ! i])
         (dhr @ [py_max 40 (py_min 220 (thr ! i + bias c + noise ! i)),
                 py_max 40 (py_min 220
                   (py_max 40 (py_min 220 (thr ! i + bias c + noise ! i)) + z))]) s3"
  by (subst device_loop.simps) (simp add: Let_def)

lemma device_loop_invariant:
  assumes res: "device_loop R c tts thr noise i dts dhr s = Inr (ots, ohr, s')"
    and init: "I i dts dhr"
    and gap: "\<And>i k dts dhr. I i dts dhr \<Longrightarrow> i < length tts \<Longrightarrow> 0 < k \<Longrightarrow> I (i + k) dts dhr"
    and emit: "\<And>i v dts dhr. I i dts dhr \<Longrightarrow> i < length tts \<Longrightarrow> 40 \<le> v \<Longrightarrow> v \<le> 220
                 \<Longrightarrow> I (Suc i) (dts @ [tts ! i]) (dhr @ [v])"
    and dup: "\<And>i v w dts dhr. I i dts dhr \<Longrightarrow> i < length tts \<Longrightarrow> 40 \<le> v \<Longrightarrow> v \<le> 220
                 \<Longrightarrow> 40 \<le> w \<Longrightarrow> w \<le> 220
                 \<Longrightarrow> I (Suc i) (dts @ [tts ! i, tts ! i]) (dhr @ [v, w])"
  shows "\<exists>j. length tts \<le> j \<and> I j ots ohr"
  using res init
proof (induction "length tts - i" arbitrary: i dts dhr s rule: less_induct)
  case less
  show ?case
  proof (cases "i < length tts")
    case False
    with less.prems show ?thesis
      by (auto simp: device_loop_done intro!: exI[of _ i])
  next
    case True
    obtain u s1 where r1: "rng_random R s = (u, s1)"
      by (cases "rng_random R s")
    show ?thesis
    proof (cases "u < gap_probability c")
      case gp: True
      from less.prems(1) obtain g s2 where
        g: "randint R 1 (max_gap_seconds c) s1 = Inr (g, s2)" and
        rec: "device_loop R c tts thr noise (i + nat g) dts dhr s2 = Inr (ots, ohr, s')"
        by (auto simp: device_loop_gap[OF True r1 gp] split: sum.splits)
      from randint_bounds[OF g] have pos: "0 < nat g" by simp
      have dec: "length tts - (i + nat g) < length tts - i"
        using True pos by linarith
      have inv: "I (i + nat g) dts dhr"
        using less.prems(2) True pos by (rule gap)
      show ?thesis
        by (rule less.hyps[OF dec rec inv])
    next
      case gp: False
      show ?thesis
      proof (cases "i < length thr \<and> i < length noise")
        case False
        with less.prems(1) show ?thesis
          by (simp add: device_loop_index_error[OF True r1 gp])
      next
        case ok: True
        then have ok1: "i < length thr" and ok2: "i < length noise" by simp_all
        obtain u2 s2 where r2: "rng_random R s1 = (u2, s2)"
          by (cases "rng_random R s1")
        let ?v = "py_max 40 (py_min 220 (thr ! i + bias c + noise ! i))"
        have dec: "length tts - Suc i < length tts - i"
          using True by linarith
        show ?thesis
        proof (cases "u2 < duplicate_probability c")
          case dp: False
          have rec: "device_loop R c tts thr noise (Suc i) (dts @ [tts ! i]) (dhr @ [?v]) s2
                       = Inr (ots, ohr, s')"
            using less.prems(1) by (simp only: device_loop_emit[OF True r1 gp ok1 ok2 r2 dp])
          have inv: "I (Suc i) (dts @ [tts ! i]) (dhr @ [?v])"
            using less.prems(2) True clamp_bounds[THEN conjunct1] clamp_bounds[THEN conjunct2]
            by (rule emit)
          show ?thesis
            by (rule less.hyps[OF dec rec inv])
        next
          case dp: True
          obtain z s3 where gz: "gauss R 0 1 s2 = (z, s3)"
            by (cases "gauss R 0 1 s2")
          let ?w = "py_max 40 (py_min 220 (?v + z))"
          have rec: "device_loop R c tts thr noise (Suc i) (dts @ [tts ! i, tts ! i])
                       (dhr @ [?v, ?w]) s3 = Inr (ots, ohr, s')"
            using less.prems(1)
            by (simp only: device_loop_emit_duplicate[OF True r1 gp ok1 ok2 r2 dp gz])
          have inv: "I (Suc i) (dts @ [tts ! i, tts ! i]) (dhr @ [?v, ?w])"
            using less.prems(2) True clamp_bounds[THEN conjunct1] clamp_bounds[THEN conjunct2]
              clamp_bounds[THEN conjunct1] clamp_bounds[THEN conjunct2]
            by (rule dup)
          show ?thesis
            by (rule less.hyps[OF dec rec inv])
        qed
      qed
    qed
  qed
qed

text \<open>
  C7. Every heart rate in the list that \<open>generate_device_data\<close> returns, the injected
  duplicates included, lies between 40 and 220, for every ground truth, every profile and
  every outcome of the random draws.
\<close>

theorem noise_boundedness:
  assumes "generate_device_data R true_timestamps true_hr device_config s = Inr (ots, ohr, s')"
  shows "\<forall>v \<in> set ohr. 40 \<le> v \<and> v \<le> 220"
proof -
  obtain noise s0 where
    n: "generate_autocorrelated_noise R (length true_hr) (noise_std device_config) 0.7 s
          = (noise, s0)"
    by (cases "generate_autocorrelated_noise R (length true_hr) (noise_std device_config) 0.7 s")
  from assms n have run:
    "device_loop R device_config true_timestamps true_hr noise 0 [] [] s0 = Inr (ots, ohr, s')"
    by (simp add: generate_device_data_def)
  have "\<exists>j. length true_timestamps \<le> j
          \<and> (\<lambda>i (dts :: instant list) dhr. \<forall>v \<in> set dhr. (40 :: real) \<le> v \<and> v \<le> 220) j ots ohr"
    by (rule device_loop_invariant[OF run]) simp_all
  then show ?thesis by simp
qed

lemma sorted_snoc_iff: "sorted (xs @ [x :: 'a :: linorder]) \<longleftrightarrow> sorted xs \<and> (\<forall>y \<in> set xs. y \<le> x)"
  by (auto simp: sorted_append)

definition emitted_upto :: "instant list \<Rightarrow> nat \<Rightarrow> instant list \<Rightarrow> real list \<Rightarrow> bool" where
  "emitted_upto tts i dts dhr \<longleftrightarrow>
     sorted dts \<and> (\<forall>t. count_list dts t \<le> 2)
     \<and> (\<forall>t \<in> set dts. \<exists>k < i. k < length tts \<and> t = tts ! k)
     \<and> length dhr = length dts"

lemma emitted_upto_gap:
  "emitted_upto tts i dts dhr \<Longrightarrow> emitted_upto tts (i + k) dts dhr"
  unfolding emitted_upto_def by (meson trans_less_add1)

lemma emitted_upto_fresh:
  assumes "sorted_wrt (<) tts" and "emitted_upto tts i dts dhr" and "i < length tts"
  shows "\<forall>t \<in> set dts. t < tts ! i"
proof
  fix t assume "t \<in> set dts"
  with assms(2) obtain k where "k < i" "k < length tts" "t = tts ! k"
    unfolding emitted_upto_def by blast
  with assms(1,3) show "t < tts ! i"
    by (simp add: sorted_wrt_nth_less)
qed

lemma emitted_members_step:
  assumes "\<forall>t \<in> set dts. \<exists>k < i. k < length tts \<and> t = tts ! k"
    and "i < length tts" and "set new \<subseteq> insert (tts ! i) (set dts)"
  shows "\<forall>t \<in> set new. \<exists>k < Suc i. k < length tts \<and> t = tts ! k"
proof
  fix t assume "t \<in> set new"
  with assms(3) consider "t \<in> set dts" | "t = tts ! i" by auto
  then show "\<exists>k < Suc i. k < length tts \<and> t = tts ! k"
  proof cases
    case 1
    with assms(1) obtain k where "k < i" "k < length tts" "t = tts ! k" by blast
    then show ?thesis by (intro exI[of _ k]) simp
  next
    case 2
    then show ?thesis using assms(2) by (intro exI[of _ i]) simp
  qed
qed

lemma emitted_upto_emit:
  assumes "sorted_wrt (<) tts" and "emitted_upto tts i dts dhr" and "i < length tts"
  shows "emitted_upto tts (Suc i) (dts @ [tts ! i]) (dhr @ [v])"
proof -
  have fresh: "\<forall>t \<in> set dts. t < tts ! i"
    by (rule emitted_upto_fresh[OF assms])
  then have notin: "tts ! i \<notin> set dts" by auto
  have s: "sorted (dts @ [tts ! i])"
    using assms(2) fresh by (auto simp: emitted_upto_def sorted_append less_imp_le)
  have c: "count_list (dts @ [tts ! i]) t \<le> 2" for t
  proof (cases "t = tts ! i")
    case True
    then have "count_list dts t = 0" using notin by (simp add: count_list_0_iff)
    then show ?thesis using True by simp
  next
    case False
    then show ?thesis using assms(2) by (simp add: emitted_upto_def)
  qed
  have m: "\<forall>t \<in> set (dts @ [tts ! i]). \<exists>k < Suc i. k < length tts \<and> t = tts ! k"
    by (rule emitted_members_step[of dts i tts]) (use assms(2,3) in \<open>auto simp: emitted_upto_def\<close>)
  have l: "length (dhr @ [v]) = length (dts @ [tts ! i])"
    using assms(2) by (simp add: emitted_upto_def)
  show ?thesis
    unfolding emitted_upto_def using s c m l by blast
qed

lemma emitted_upto_duplicate:
  assumes "sorted_wrt (<) tts" and "emitted_upto tts i dts dhr" and "i < length tts"
  shows "emitted_upto tts (Suc i) (dts @ [tts ! i, tts ! i]) (dhr @ [v, w])"
proof -
  have fresh: "\<forall>t \<in> set dts. t < tts ! i"
    by (rule emitted_upto_fresh[OF assms])
  then have notin: "tts ! i \<notin> set dts" by auto
  have s: "sorted (dts @ [tts ! i, tts ! i])"
    using assms(2) fresh by (auto simp: emitted_upto_def sorted_append less_imp_le)
  have c: "count_list (dts @ [tts ! i, tts ! i]) t \<le> 2" for t
  proof (cases "t = tts ! i")
    case True
    then have "count_list dts t = 0" using notin by (simp add: count_list_0_iff)
    then show ?thesis using True by simp
  next
    case False
    then show ?thesis using assms(2) by (simp add: emitted_upto_def)
  qed
  have m: "\<forall>t \<in> set (dts @ [tts ! i, tts ! i]). \<exists>k < Suc i. k < length tts \<and> t = tts ! k"
    by (rule emitted_members_step[of dts i tts]) (use assms(2,3) in \<open>auto simp: emitted_upto_def\<close>)
  have l: "length (dhr @ [v, w]) = length (dts @ [tts ! i, tts ! i])"
    using assms(2) by (simp add: emitted_upto_def)
  show ?thesis
    unfolding emitted_upto_def using s c m l by blast
qed

lemma device_loop_emitted:
  assumes st: "sorted_wrt (<) tts"
    and run: "device_loop R c tts thr noise 0 [] [] s0 = Inr (ots, ohr, s')"
  shows "\<exists>j. emitted_upto tts j ots ohr"
proof -
  have "\<exists>j. length tts \<le> j \<and> emitted_upto tts j ots ohr"
  proof (rule device_loop_invariant[OF run])
    show "emitted_upto tts 0 [] []" by (simp add: emitted_upto_def)
  qed (simp_all add: emitted_upto_gap emitted_upto_emit[OF st] emitted_upto_duplicate[OF st])
  then show ?thesis by blast
qed

text \<open>
  C10. For strictly increasing ground-truth timestamps, the timestamps that
  \<open>generate_device_data\<close> returns are non-decreasing, every one of them is a ground-truth
  timestamp, none occurs more than twice (a sample and its injected duplicate), and there
  is one heart rate per timestamp.
\<close>

theorem timestamps_nondecreasing:
  assumes "sorted_wrt (<) true_timestamps"
    and "generate_device_data R true_timestamps true_hr device_config s = Inr (ots, ohr, s')"
  shows "sorted ots \<and> (\<forall>t. count_list ots t \<le> 2) \<and> set ots \<subseteq> set true_timestamps
         \<and> length ohr = length ots"
proof -
  obtain noise s0 where
    n: "generate_autocorrelated_noise R (length true_hr) (noise_std device_config) 0.7 s
          = (noise, s0)"
    by (cases "generate_autocorrelated_noise R (length true_hr) (noise_std device_config) 0.7 s")
  from assms(2) n have run:
    "device_loop R device_config true_timestamps true_hr noise 0 [] [] s0 = Inr (ots, ohr, s')"
    by (simp add: generate_device_data_def)
  from device_loop_emitted[OF assms(1) run] obtain j where
    e: "emitted_upto true_timestamps j ots ohr" ..
  then have "set ots \<subseteq> set true_timestamps"
    unfolding emitted_upto_def by (metis nth_mem subsetI)
  with e show ?thesis
    unfolding emitted_upto_def by blast
qed

lemma randint_error:
  "randint R a b s = Inl e \<Longrightarrow> e = ValueError \<and> b < a"
  by (auto simp: randint_def split: if_splits prod.splits)

lemma randint_empty_range: "b < a \<Longrightarrow> randint R a b s = Inl ValueError"
  by (simp add: randint_def)

lemma device_loop_errors:
  assumes "device_loop R c tts thr noise i dts dhr s = Inl e"
  shows "(e = ValueError \<and> max_gap_seconds c < 1)
       \<or> (e = IndexError \<and> (length thr < length tts \<or> length noise < length tts))"
  using assms
proof (induction "length tts - i" arbitrary: i dts dhr s rule: less_induct)
  case less
  show ?case
  proof (cases "i < length tts")
    case False
    with less.prems show ?thesis by (simp add: device_loop_done)
  next
    case True
    obtain u s1 where r1: "rng_random R s = (u, s1)"
      by (cases "rng_random R s")
    show ?thesis
    proof (cases "u < gap_probability c")
      case gp: True
      show ?thesis
      proof (cases "randint R 1 (max_gap_seconds c) s1")
        case (Inl e')
        with less.prems have "e' = e"
          by (simp add: device_loop_gap[OF True r1 gp])
        with randint_error[OF Inl] show ?thesis by simp
      next
        case (Inr p)
        obtain g s2 where p: "p = (g, s2)" by (cases p)
        from randint_bounds[OF Inr[unfolded p]] have pos: "0 < nat g" by simp
        have dec: "length tts - (i + nat g) < length tts - i"
          using True pos by linarith
        have rec: "device_loop R c tts thr noise (i + nat g) dts dhr s2 = Inl e"
          using less.prems Inr p by (simp add: device_loop_gap[OF True r1 gp])
        show ?thesis by (rule less.hyps[OF dec rec])
      qed
    next
      case gp: False
      show ?thesis
      proof (cases "i < length thr \<and> i < length noise")
        case False
        with less.prems have "e = IndexError"
          by (simp add: device_loop_index_error[OF True r1 gp])
        moreover have "length thr < length tts \<or> length noise < length tts"
          using False True by linarith
        ultimately show ?thesis by simp
      next
        case ok: True
        then have ok1: "i < length thr" and ok2: "i < length noise" by simp_all
        obtain u2 s2 where r2: "rng_random R s1 = (u2, s2)"
          by (cases "rng_random R s1")
        have dec: "length tts - Suc i < length tts - i"
          using True by linarith
        show ?thesis
        proof (cases "u2 < duplicate_probability c")
          case dp: False
          show ?thesis
            by (rule less.hyps[OF dec
                  less.prems[unfolded device_loop_emit[OF True r1 gp ok1 ok2 r2 dp]]])
        next
          case dp: True
          obtain z s3 where gz: "gauss R 0 1 s2 = (z, s3)"
            by (cases "gauss R 0 1 s2")
          show ?thesis
            by (rule less.hyps[OF dec
                  less.prems[unfolded device_loop_emit_duplicate[OF True r1 gp ok1 ok2 r2 dp gz]]])
        qed
      qed
    qed
  qed
qed

lemma length_noise_loop:
  "length (fst (noise_loop R sd cf k noise s)) = length noise + k"
  by (induction k arbitrary: noise s) (simp_all split: prod.splits)

lemma length_generate_autocorrelated_noise:
  "generate_autocorrelated_noise R len sd cf s = (noise, s') \<Longrightarrow> length noise = max 1 len"
  using length_noise_loop[of R sd cf "len - 1" "[fst (gauss R 0 sd s)]" "snd (gauss R 0 sd s)"]
  by (auto simp: generate_autocorrelated_noise_def split: prod.splits)

lemma generate_device_data_errors:
  assumes "generate_device_data R tts thr c s = Inl e"
  shows "(e = ValueError \<and> max_gap_seconds c < 1) \<or> (e = IndexError \<and> length thr < length tts)"
proof -
  obtain noise s0 where
    n: "generate_autocorrelated_noise R (length thr) (noise_std c) 0.7 s = (noise, s0)"
    by (cases "generate_autocorrelated_noise R (length thr) (noise_std c) 0.7 s")
  from assms n have "device_loop R c tts thr noise 0 [] [] s0 = Inl e"
    by (simp add: generate_device_data_def)
  from device_loop_errors[OF this] length_generate_autocorrelated_noise[OF n]
  show ?thesis by auto
qed

text \<open>
  C8, as amended. \<open>generate_device_data\<close> does not validate the profile. The only errors it
  raises are \<open>ValueError\<close>, and only for \<open>max_gap_seconds < 1\<close>, and \<open>IndexError\<close>, and only
  when there are fewer heart rates than timestamps. With \<open>max_gap_seconds \<ge> 1\<close> and a heart
  rate for every timestamp it returns data whatever the two probabilities are. With
  \<open>max_gap_seconds < 1\<close> it raises \<open>ValueError\<close> when the first draw of the loop is a gap.
\<close>

theorem no_profile_validation:
  "(generate_device_data R tts thr c s = Inl e \<longrightarrow>
      (e = ValueError \<and> max_gap_seconds c < 1) \<or> (e = IndexError \<and> length thr < length tts))
   \<and> (1 \<le> max_gap_seconds c \<and> length tts \<le> length thr \<longrightarrow>
      (\<exists>out. generate_device_data R tts thr c s = Inr out))
   \<and> (max_gap_seconds c < 1 \<and> tts \<noteq> []
        \<and> fst (rng_random R (snd (generate_autocorrelated_noise R (length thr) (noise_std c) 0.7 s)))
            < gap_probability c \<longrightarrow>
      generate_device_data R tts thr c s = Inl ValueError)"
proof (intro conjI impI)
  assume "generate_device_data R tts thr c s = Inl e"
  then show "(e = ValueError \<and> max_gap_seconds c < 1) \<or> (e = IndexError \<and> length thr < length tts)"
    by (rule generate_device_data_errors)
next
  assume a: "1 \<le> max_gap_seconds c \<and> length tts \<le> length thr"
  show "\<exists>out. generate_device_data R tts thr c s = Inr out"
  proof (cases "generate_device_data R tts thr c s")
    case (Inl e)
    from generate_device_data_errors[OF Inl] a show ?thesis by auto
  next
    case (Inr out)
    then show ?thesis by blast
  qed
next
  assume a: "max_gap_seconds c < 1 \<and> tts \<noteq> []
        \<and> fst (rng_random R (snd (generate_autocorrelated_noise R (length thr) (noise_std c) 0.7 s)))
            < gap_probability c"
  obtain noise s0 where
    n: "generate_autocorrelated_noise R (length thr) (noise_std c) 0.7 s = (noise, s0)"
    by (cases "generate_autocorrelated_noise R (length thr) (noise_std c) 0.7 s")
  obtain u s1 where r: "rng_random R s0 = (u, s1)"
    by (cases "rng_random R s0")
  from a n r have u: "u < gap_probability c" and len: "0 < length tts"
    and mg: "max_gap_seconds c < 1" by simp_all
  show "generate_device_data R tts thr c s = Inl ValueError"
    by (simp add: generate_device_data_def n device_loop_gap[OF len r u]
          randint_empty_range[OF mg])
qed

subsection \<open>Concrete runs\<close>

lemma rng_random_const [simp]: "rng_random const_rng s = (1 / 2, s)"
  by (simp add: const_rng_def)

lemma gauss_const [simp]: "gauss const_rng mu sigma s = (mu, s)"
  by (simp add: gauss_def const_rng_def)

lemma uniform_const [simp]: "uniform const_rng a b s = (a + (b - a) * (1 / 2), s)"
  by (simp add: uniform_def)

lemma randint_const [simp]: "randint const_rng a b s = (if b < a then Inl ValueError else Inr (a, s))"
  by (simp add: randint_def const_rng_def)

lemma device_loop_const_rng:
  assumes g: "\<not> 1 / 2 < gap_probability c" and d: "\<not> 1 / 2 < duplicate_probability c"
    and l1: "length tts \<le> length thr" and l2: "length tts \<le> length noise"
  shows "device_loop const_rng c tts thr noise i dts dhr () =
           Inr (dts @ drop i tts,
                dhr @ map (\<lambda>j. py_max 40 (py_min 220 (thr ! j + bias c + noise ! j)))
                        [i..<length tts], ())"
proof (induction "length tts - i" arbitrary: i dts dhr rule: less_induct)
  case less
  show ?case
  proof (cases "i < length tts")
    case False
    then show ?thesis by (simp add: device_loop_done)
  next
    case True
    have ok1: "i < length thr" and ok2: "i < length noise"
      using True l1 l2 by linarith+
    have dec: "length tts - Suc i < length tts - i" using True by linarith
    have step: "device_loop const_rng c tts thr noise i dts dhr () =
        device_loop const_rng c tts thr noise (Suc i) (dts @ [tts ! i])
          (dhr @ [py_max 40 (py_min 220 (thr ! i + bias c + noise ! i))]) ()"
      by (rule device_loop_emit[OF True rng_random_const g ok1 ok2 rng_random_const d])
    show ?thesis
      unfolding step less.hyps[OF dec]
      using True by (simp add: Cons_nth_drop_Suc upt_conv_Cons)
  qed
qed

lemma generate_device_data_const_rng:
  assumes "\<not> 1 / 2 < gap_probability c" and "\<not> 1 / 2 < duplicate_probability c"
    and "length tts \<le> length thr"
  shows "generate_device_data const_rng tts thr c () =
           Inr (tts,
                map (\<lambda>j. py_max 40 (py_min 220 (thr ! j + bias c
                        + fst (generate_autocorrelated_noise const_rng (length thr)
                                 (noise_std c) 0.7 ()) ! j)))
                    [0..<length tts], ())"
proof -
  obtain noise s0 where
    n: "generate_autocorrelated_noise const_rng (length thr) (noise_std c) 0.7 () = (noise, s0)"
    by (cases "generate_autocorrelated_noise const_rng (length thr) (noise_std c) 0.7 ()")
  have "length tts \<le> length noise"
    using length_generate_autocorrelated_noise[OF n] assms(3) by simp
  from device_loop_const_rng[OF assms(1,2,3) this, of 0 "[]" "[]"] n
  show ?thesis by (simp add: generate_device_data_def)
qed

text \<open>
  C8. A profile whose two probabilities lie outside \<open>[0, 1]\<close> and whose \<open>max_gap_seconds\<close> is 0
  is not refused: the data are generated, with every sample duplicated.
\<close>

theorem validation_counterexample:
  "generate_device_data const_rng [0, 1000000] [100, 101]
     \<lparr>bias = 0, noise_std = 1, gap_probability = - (1 / 2), max_gap_seconds = 0,
      duplicate_probability = 3 / 2\<rparr> ()
   = Inr ([0, 0, 1000000, 1000000], [100, 100, 101, 101], ())"
  by (simp add: generate_device_data_def generate_autocorrelated_noise_def
        device_loop.simps py_max_def py_min_def)

theorem noise_boundedness_witness:
  "generate_device_data const_rng [0, 1000000] [30, 250]
     \<lparr>bias = 0, noise_std = 1, gap_probability = 0, max_gap_seconds = 3,
      duplicate_probability = 1\<rparr> ()
   = Inr ([0, 0, 1000000, 1000000], [40, 40, 220, 220], ())
   \<and> list_all (\<lambda>v. 40 \<le> v \<and> v \<le> 220) [40, 40, 220, 220 :: real]"
proof -
  have run: "generate_device_data const_rng [0, 1000000] [30, 250]
     \<lparr>bias = 0, noise_std = 1, gap_probability = 0, max_gap_seconds = 3,
      duplicate_probability = 1\<rparr> ()
   = Inr ([0, 0, 1000000, 1000000], [40, 40, 220, 220], ())"
    by (simp add: generate_device_data_def generate_autocorrelated_noise_def
        device_loop.simps py_max_def py_min_def)
  from noise_boundedness[OF run] run show ?thesis
    by (simp only: list_all_iff simp_thms)
qed

theorem timestamps_nondecreasing_witness:
  "sorted_wrt (<) [0, 1000000 :: int]
   \<and> generate_device_data const_rng [0, 1000000] [100, 101]
        \<lparr>bias = 5, noise_std = 1, gap_probability = 0, max_gap_seconds = 3,
         duplicate_probability = 1\<rparr> ()
      = Inr ([0, 0, 1000000, 1000000], [105, 105, 106, 106], ())
   \<and> sorted [0, 0, 1000000, 1000000 :: int]
   \<and> count_list [0, 0, 1000000, 1000000] (0 :: int) = 2"
proof -
  have st: "sorted_wrt (<) [0, 1000000 :: int]" by simp
  have run: "generate_device_data const_rng [0, 1000000] [100, 101]
        \<lparr>bias = 5, noise_std = 1, gap_probability = 0, max_gap_seconds = 3,
         duplicate_probability = 1\<rparr> ()
      = Inr ([0, 0, 1000000, 1000000], [105, 105, 106, 106], ())"
    by (simp add: generate_device_data_def generate_autocorrelated_noise_def
        device_loop.simps py_max_def py_min_def)
  from timestamps_nondecreasing[OF st run] st run show ?thesis
    by simp
qed

theorem no_profile_validation_witness:
  "generate_device_data const_rng [0] [100]
     \<lparr>bias = 0, noise_std = 1, gap_probability = 1, max_gap_seconds = 0,
      duplicate_probability = 0\<rparr> () = Inl ValueError
   \<and> (\<exists>out. generate_device_data const_rng [0, 1000000] [100, 101]
         \<lparr>bias = 0, noise_std = 1, gap_probability = 2, max_gap_seconds = 1,
          duplicate_probability = - 1\<rparr> () = Inr out)"
  using
    no_profile_validation[of const_rng "[0]" "[100]"
      "\<lparr>bias = 0, noise_std = 1, gap_probability = 1, max_gap_seconds = 0,
        duplicate_probability = 0\<rparr>" "()" ValueError]
    no_profile_validation[of const_rng "[0, 1000000]" "[100, 101]"
      "\<lparr>bias = 0, noise_std = 1, gap_probability = 2, max_gap_seconds = 1,
        duplicate_probability = - 1\<rparr>" "()" ValueError]
  by (simp add: generate_autocorrelated_noise_def)

section \<open>Two runs with one seed\<close>

lemma device_loop_shift:
  "device_loop R c (map f tts) thr noise i (map f dts) dhr s =
     map_sum id (\<lambda>(ots, ohr, s'). (map f ots, ohr, s'))
       (device_loop R c tts thr noise i dts dhr s)"
proof (induction "length tts - i" arbitrary: i dts dhr s rule: less_induct)
  case less
  show ?case
  proof (cases "i < length tts")
    case False
    then show ?thesis by (simp add: device_loop_done)
  next
    case True
    then have True': "i < length (map f tts)" by simp
    obtain u s1 where r1: "rng_random R s = (u, s1)"
      by (cases "rng_random R s")
    show ?thesis
    proof (cases "u < gap_probability c")
      case gp: True
      show ?thesis
      proof (cases "randint R 1 (max_gap_seconds c) s1")
        case (Inl e)
        then show ?thesis
          by (simp add: device_loop_gap[OF True r1 gp] device_loop_gap[OF True' r1 gp])
      next
        case (Inr p)
        obtain g s2 where p: "p = (g, s2)" by (cases p)
        from randint_bounds[OF Inr[unfolded p]] have pos: "0 < nat g" by simp
        have dec: "length tts - (i + nat g) < length tts - i"
          using True pos by linarith
        show ?thesis
          by (simp add: device_loop_gap[OF True r1 gp] device_loop_gap[OF True' r1 gp]
                Inr p less.hyps[OF dec])
      qed
    next
      case gp: False
      show ?thesis
      proof (cases "i < length thr \<and> i < length noise")
        case False
        then show ?thesis
          by (simp add: device_loop_index_error[OF True r1 gp False]
                device_loop_index_error[OF True' r1 gp False])
      next
        case ok: True
        then have ok1: "i < length thr" and ok2: "i < length noise" by simp_all
        obtain u2 s2 where r2: "rng_random R s1 = (u2, s2)"
          by (cases "rng_random R s1")
        have dec: "length tts - Suc i < length tts - i"
          using True by linarith
        have nth: "map f tts ! i = f (tts ! i)" using True by simp
        show ?thesis
        proof (cases "u2 < duplicate_probability c")
          case dp: False
          have a: "map f dts @ [f (tts ! i)] = map f (dts @ [tts ! i])" by simp
          show ?thesis
            by (simp only: device_loop_emit[OF True r1 gp ok1 ok2 r2 dp]
                  device_loop_emit[OF True' r1 gp ok1 ok2 r2 dp] nth a less.hyps[OF dec])
        next
          case dp: True
          obtain z s3 where gz: "gauss R 0 1 s2 = (z, s3)"
            by (cases "gauss R 0 1 s2")
          have a: "map f dts @ [f (tts ! i), f (tts ! i)] = map f (dts @ [tts ! i, tts ! i])"
            by simp
          show ?thesis
            by (simp only: device_loop_emit_duplicate[OF True r1 gp ok1 ok2 r2 dp gz]
                  device_loop_emit_duplicate[OF True' r1 gp ok1 ok2 r2 dp gz] nth a
                  less.hyps[OF dec])
        qed
      qed
    qed
  qed
qed

lemma generate_device_data_shift:
  "generate_device_data R (map f tts) thr c s =
     map_sum id (\<lambda>(ots, ohr, s'). (map f ots, ohr, s')) (generate_device_data R tts thr c s)"
  using device_loop_shift[of R c f tts thr _ 0 "[]" "[]"]
  by (simp add: generate_device_data_def split: prod.splits)

lemma generate_device_data_lengths:
  assumes "generate_device_data R tts thr c s = Inr (ots, ohr, s')"
  shows "length ohr = length ots"
proof -
  obtain noise s0 where
    n: "generate_autocorrelated_noise R (length thr) (noise_std c) 0.7 s = (noise, s0)"
    by (cases "generate_autocorrelated_noise R (length thr) (noise_std c) 0.7 s")
  from assms n have run: "device_loop R c tts thr noise 0 [] [] s0 = Inr (ots, ohr, s')"
    by (simp add: generate_device_data_def)
  have "\<exists>j. length tts \<le> j
          \<and> (\<lambda>i (dts :: instant list) (dhr :: real list). length dhr = length dts) j ots ohr"
    by (rule device_loop_invariant[OF run]) simp_all
  then show ?thesis by simp
qed

lemma generate_true_heart_rate_shift:
  "generate_true_heart_rate g now2 d =
     (map (\<lambda>t. t + (now2 - now1)) (fst (generate_true_heart_rate g now1 d)),
      snd (generate_true_heart_rate g now1 d))"
  by (simp add: generate_true_heart_rate_eq)

lemma generate_files_shift:
  assumes "generate_files R g now1 s = Inr (f1, s1)"
  shows "\<exists>f2. generate_files R g now2 s = Inr (f2, s1)
           \<and> device1_hr f2 = device1_hr f1 \<and> device2_hr f2 = device2_hr f1
           \<and> device1_timestamps f2 = map (\<lambda>t. t + (now2 - now1)) (device1_timestamps f1)
           \<and> device2_timestamps f2 = map (\<lambda>t. t + (now2 - now1)) (device2_timestamps f1)
           \<and> device1_timestamps f1 \<noteq> [] \<and> device2_timestamps f1 \<noteq> []"
proof -
  let ?d = "exercise_duration_minutes g * 60"
  let ?sh = "\<lambda>t. t + (now2 - now1)"
  obtain ts hr where t1: "generate_true_heart_rate g now1 ?d = (ts, hr)"
    by (cases "generate_true_heart_rate g now1 ?d")
  have t2: "generate_true_heart_rate g now2 ?d = (map ?sh ts, hr)"
    using generate_true_heart_rate_shift[of g now2 ?d now1] t1 by simp
  obtain P sp where p: "generate_position_data R ?d s = (P, sp)"
    by (cases "generate_position_data R ?d s")
  from assms t1 p obtain a1 h1 sa where
    d1: "generate_device_data R ts hr (device_configs_device1 g) sp = Inr (a1, h1, sa)"
    by (auto simp: generate_files_def Let_def split: sum.splits)
  from assms t1 p d1 obtain a2 h2 sb where
    d2: "generate_device_data R ts hr (device_configs_device2 g) sa = Inr (a2, h2, sb)"
    by (auto simp: generate_files_def Let_def split: sum.splits)
  from assms t1 p d1 d2 have
    ok: "ts \<noteq> []" "min (length h1) (length h2) \<noteq> 0" and
    f1: "f1 = \<lparr>device1_timestamps = a1, device1_hr = h1, device2_timestamps = a2,
               device2_hr = h2, positions = P\<rparr>" and s1: "s1 = sb"
    by (auto simp: generate_files_def Let_def split: if_splits)
  have e1: "generate_device_data R (map ?sh ts) hr (device_configs_device1 g) sp
              = Inr (map ?sh a1, h1, sa)"
    by (simp add: generate_device_data_shift d1)
  have e2: "generate_device_data R (map ?sh ts) hr (device_configs_device2 g) sa
              = Inr (map ?sh a2, h2, sb)"
    by (simp add: generate_device_data_shift d2)
  have r: "generate_files R g now2 s =
             Inr (\<lparr>device1_timestamps = map ?sh a1, device1_hr = h1,
                   device2_timestamps = map ?sh a2, device2_hr = h2, positions = P\<rparr>, sb)"
    using ok by (simp add: generate_files_def Let_def t2 p e1 e2)
  have n1: "a1 \<noteq> []" and n2: "a2 \<noteq> []"
    using ok(2) generate_device_data_lengths[OF d1] generate_device_data_lengths[OF d2]
    by auto
  show ?thesis
    using r n1 n2 by (simp add: f1 s1)
qed

lemma init_const_rng:
  "init const_rng (Some a) s =
     Inr (\<lparr>device_configs_device1 =
             \<lparr>bias = 0, noise_std = 2, gap_probability = 3 / 100, max_gap_seconds = 3,
              duplicate_probability = 1 / 10\<rparr>,
           device_configs_device2 =
             \<lparr>bias = 0, noise_std = 2, gap_probability = 3 / 100, max_gap_seconds = 3,
              duplicate_probability = 1 / 10\<rparr>,
           true_hr_min = 60, true_hr_max = 180, exercise_duration_minutes = 30,
           sampling_rate = 1\<rparr>, ())"
  by (simp add: init_def draw_device_config_def)

lemma generate_files_const_rng:
  assumes "\<not> 1 / 2 < gap_probability (device_configs_device1 g)"
    and "\<not> 1 / 2 < duplicate_probability (device_configs_device1 g)"
    and "\<not> 1 / 2 < gap_probability (device_configs_device2 g)"
    and "\<not> 1 / 2 < duplicate_probability (device_configs_device2 g)"
    and "0 < exercise_duration_minutes g"
  shows "\<exists>f. generate_files const_rng g now () = Inr (f, ())"
proof -
  let ?d = "exercise_duration_minutes g * 60"
  let ?n = "nat ?d"
  let ?T = "map (\<lambda>i. now + timedelta_seconds i) [0..<?n]"
  let ?H = "map (\<lambda>i. signal_model (true_hr_min g) (true_hr_max g) i ?d) [0..<?n]"
  have n: "0 < ?n" using assms(5) by simp
  have t: "generate_true_heart_rate g now ?d = (?T, ?H)"
    by (rule generate_true_heart_rate_eq)
  obtain P where p: "generate_position_data const_rng ?d () = (P, ())"
    by (cases "generate_position_data const_rng ?d ()") simp
  have len: "length ?T \<le> length ?H" by simp
  note d1 = generate_device_data_const_rng[OF assms(1,2) len]
  note d2 = generate_device_data_const_rng[OF assms(3,4) len]
  have ne: "?T \<noteq> []" using n by simp
  show ?thesis
    apply (simp only: generate_files_def Let_def t p prod.case d1 d2 sum.case)
    using n ne by simp
qed

lemma map_shift_neq:
  assumes "xs \<noteq> []" and "d \<noteq> (0 :: int)"
  shows "map (\<lambda>t. t + d) xs \<noteq> xs"
proof
  assume e: "map (\<lambda>t. t + d) xs = xs"
  from assms(1) obtain x ys where "xs = x # ys" by (cases xs) auto
  with e have "x + d = x" by simp
  with assms(2) show False by simp
qed

text \<open>
  C1. A run of \<open>main\<close> with a seed does not depend on the state of the generator before the
  call, but it does depend on the clock: when a run at clock reading \<open>now1\<close> succeeds, the
  run with the same seed at \<open>now2\<close> succeeds with the same heart rates for both devices and
  with every timestamp moved by \<open>now2 - now1\<close>. Both timestamp sequences are non-empty, so
  they differ from those of the first run as soon as the two clock readings differ: two runs
  with one seed do not produce identical trackpoint sequences.
\<close>

theorem seeded_runs_shift:
  assumes "generator_main R (Some seed) now1 s = Inr (f1, s1)"
  shows "\<exists>f2. generator_main R (Some seed) now2 s' = Inr (f2, s1)
           \<and> device1_hr f2 = device1_hr f1 \<and> device2_hr f2 = device2_hr f1
           \<and> device1_timestamps f2 = map (\<lambda>t. t + (now2 - now1)) (device1_timestamps f1)
           \<and> device2_timestamps f2 = map (\<lambda>t. t + (now2 - now1)) (device2_timestamps f1)
           \<and> (now2 \<noteq> now1 \<longrightarrow>
                device1_timestamps f2 \<noteq> device1_timestamps f1
              \<and> device2_timestamps f2 \<noteq> device2_timestamps f1)"
proof -
  have i: "init R (Some seed) s' = init R (Some seed) s"
    by (simp add: init_def)
  from assms obtain g sg where
    g: "init R (Some seed) s = Inr (g, sg)" and
    run: "generate_files R g now1 sg = Inr (f1, s1)"
    by (auto simp: generator_main_def split: sum.splits)
  from generate_files_shift[OF run, of now2] obtain f2 where
    f2: "generate_files R g now2 sg = Inr (f2, s1)"
      "device1_hr f2 = device1_hr f1" "device2_hr f2 = device2_hr f1"
      "device1_timestamps f2 = map (\<lambda>t. t + (now2 - now1)) (device1_timestamps f1)"
      "device2_timestamps f2 = map (\<lambda>t. t + (now2 - now1)) (device2_timestamps f1)"
      "device1_timestamps f1 \<noteq> []" "device2_timestamps f1 \<noteq> []"
    by blast
  have m: "generator_main R (Some seed) now2 s' = Inr (f2, s1)"
    by (simp add: generator_main_def i g f2(1))
  have d: "device1_timestamps f2 \<noteq> device1_timestamps f1
         \<and> device2_timestamps f2 \<noteq> device2_timestamps f1" if "now2 \<noteq> now1"
  proof -
    from that have "now2 - now1 \<noteq> 0" by simp
    then show ?thesis
      unfolding f2(4,5) using f2(6,7) by (simp add: map_shift_neq)
  qed
  from m f2(2-5) d show ?thesis by blast
qed

theorem seeded_runs_differ_in_timestamps:
  "(case (generator_main const_rng (Some 42) 0 (),
          generator_main const_rng (Some 42) 3600000000 ()) of
      (Inr (f1, s1), Inr (f2, s2)) \<Rightarrow>
          device1_hr f1 = device1_hr f2 \<and> device2_hr f1 = device2_hr f2
        \<and> device1_timestamps f1 \<noteq> device1_timestamps f2
        \<and> device2_timestamps f1 \<noteq> device2_timestamps f2
    | _ \<Rightarrow> False)"
proof -
  let ?g = "\<lparr>device_configs_device1 =
             \<lparr>bias = 0, noise_std = 2, gap_probability = 3 / 100, max_gap_seconds = 3,
              duplicate_probability = 1 / 10\<rparr>,
           device_configs_device2 =
             \<lparr>bias = 0, noise_std = 2, gap_probability = 3 / 100, max_gap_seconds = 3,
              duplicate_probability = 1 / 10\<rparr>,
           true_hr_min = 60, true_hr_max = 180, exercise_duration_minutes = 30,
           sampling_rate = 1\<rparr>"
  have c: "\<not> 1 / 2 < gap_probability (device_configs_device1 ?g)"
      "\<not> 1 / 2 < duplicate_probability (device_configs_device1 ?g)"
      "\<not> 1 / 2 < gap_probability (device_configs_device2 ?g)"
      "\<not> 1 / 2 < duplicate_probability (device_configs_device2 ?g)"
      "0 < exercise_duration_minutes ?g"
    by simp_all
  from generate_files_const_rng[OF c, of 0] obtain f1 where
    "generate_files const_rng ?g 0 () = Inr (f1, ())"
    by blast
  then have r1: "generator_main const_rng (Some 42) 0 () = Inr (f1, ())"
    by (simp add: generator_main_def init_const_rng)
  have ne: "(3600000000 :: int) \<noteq> 0" by simp
  from seeded_runs_shift[OF r1, of 3600000000 "()"] ne obtain f2 where
    r2: "generator_main const_rng (Some 42) 3600000000 () = Inr (f2, ())" and
    h: "device1_hr f2 = device1_hr f1" "device2_hr f2 = device2_hr f1" and
    t: "device1_timestamps f2 \<noteq> device1_timestamps f1"
       "device2_timestamps f2 \<noteq> device2_timestamps f1"
    by blast
  show ?thesis
    using h t by (simp only: r1 r2 prod.case sum.case) auto
qed

end
